theory Spec2Isabelle
  imports Complex_Main "HOL-Library.Word" "HOL-Library.Signed_Division"
begin

unbundle bit_operations_syntax

section \<open>Packed integer arrays: constants and failures\<close>

text \<open>
  The Go file declares the version and format identifiers as untyped constants.
  Go's \<open>int32\<close> arguments (version, value count, index) are modelled as \<open>int\<close>, with
  the 32-bit wrap-around written out wherever the source multiplies them; \<open>uint32\<close> bit widths are \<open>32 word\<close>, stored bytes
  \<open>8 word\<close>, and \<open>int64\<close> cells \<open>64 word\<close>.
\<close>

definition PACKED_VERSION_START :: int where
  "PACKED_VERSION_START = 0"

definition PACKED_VERSION_BYTE_ALIGNED :: int where
  "PACKED_VERSION_BYTE_ALIGNED = 1"

definition PACKED_VERSION_CURRENT :: int where
  "PACKED_VERSION_CURRENT = PACKED_VERSION_BYTE_ALIGNED"

definition PACKED :: int where
  "PACKED = 0"

definition PACKED_SINGLE_BLOCK :: int where
  "PACKED_SINGLE_BLOCK = 1"

text \<open>
  Every way a call can end without returning to its caller. The first eight are the
  panics the source raises itself or that the Go runtime raises for the operation
  named. \<open>StackOverflow\<close> is the runtime's fatal error for recursion without end.
  \<open>FloatNotModelled\<close> is not a Go failure: it marks float64 arithmetic whose result
  the model does not reproduce (a product of 2^53 or more, which float64 rounds, or
  the conversion of an infinity or NaN to an integer, which Go leaves to the
  implementation).
\<close>

datatype panic =
    VersionTooOld int
  | VersionTooNew int
  | UnknownFormat int
  | MaxSizeExceeded
  | MakeSliceLenOutOfRange
  | IndexOutOfRange
  | NegativeShiftAmount
  | DivideByZero
  | StackOverflow
  | FloatNotModelled

section \<open>Version check\<close>

definition CheckVersion :: "int \<Rightarrow> panic + unit" where
  "CheckVersion version =
     (if version < PACKED_VERSION_START then Inl (VersionTooOld version)
      else if version > PACKED_VERSION_CURRENT then Inl (VersionTooNew version)
      else Inr ())"

section \<open>Format descriptor: byte and word footprint\<close>

text \<open>
  \<open>float64(valueCount) * float64(bitsPerValue) / d\<close> followed by \<open>math.Ceil\<close> and the
  conversion to an integer. Both conversions to float64 are exact, the division is by
  a power of two, and the product is exact below 2^53, so on that range the result
  is the ceiling of the rational quotient.
  In the single-block case the quotient \<open>float64(valueCount) / float64(valuesPerBlock)\<close>
  is rounded, but for an \<open>int32\<close> count and at most 64 values per block the rounding
  is far smaller than the distance of a non-integral quotient to the next integer, so
  its ceiling is the exact one too.
\<close>

definition float64_exact :: "int \<Rightarrow> bool" where
  "float64_exact k = (\<bar>k\<bar> < 2 ^ 53)"

function ByteCount :: "int \<Rightarrow> int \<Rightarrow> int \<Rightarrow> 32 word \<Rightarrow> panic + int"
  and longCount :: "int \<Rightarrow> int \<Rightarrow> int \<Rightarrow> 32 word \<Rightarrow> panic + int" where
  "ByteCount f packedIntsVersion valueCount bitsPerValue =
     (if f = PACKED then
        (if \<not> float64_exact (valueCount * uint bitsPerValue) then Inl FloatNotModelled
         else if packedIntsVersion < PACKED_VERSION_BYTE_ALIGNED
         then Inr (8 * \<lceil>real_of_int valueCount * real_of_int (uint bitsPerValue) / 64\<rceil>)
         else Inr \<lceil>real_of_int valueCount * real_of_int (uint bitsPerValue) / 8\<rceil>)
      else if f \<noteq> PACKED_SINGLE_BLOCK then Inl StackOverflow
      else (case longCount f packedIntsVersion valueCount bitsPerValue of
              Inl p \<Rightarrow> Inl p
            | Inr n \<Rightarrow> Inr (8 * n)))"
| "longCount f packedIntsVersion valueCount bitsPerValue =
     (if f = PACKED_SINGLE_BLOCK then
        (if bitsPerValue = 0 then Inl DivideByZero
         else let valuesPerBlock = 64 div bitsPerValue in
           if valuesPerBlock = 0 then Inl FloatNotModelled
           else Inr \<lceil>real_of_int valueCount / real_of_int (uint valuesPerBlock)\<rceil>)
      else (case ByteCount f packedIntsVersion valueCount bitsPerValue of
              Inl p \<Rightarrow> Inl p
            | Inr ans \<Rightarrow>
                if ans smod 8 = 0 then Inr (ans sdiv 8) else Inr (ans sdiv 8 + 1)))"
  by pat_completeness auto
termination
  by (relation "measure (\<lambda>c. case c of
         Inl (f, _) \<Rightarrow> if f = PACKED_SINGLE_BLOCK then 1 else 0
       | Inr (f, _) \<Rightarrow> if f = PACKED_SINGLE_BLOCK then 0 else 1)")
     (auto simp: PACKED_def PACKED_SINGLE_BLOCK_def)

declare ByteCount.simps [simp del] longCount.simps [simp del]

text \<open>
  In the source \<open>ByteCount\<close> falls through to \<open>8 * longCount\<close> for every format but
  \<open>PACKED\<close>, and \<open>longCount\<close> falls through to \<open>ByteCount\<close> for every format but
  \<open>PACKED_SINGLE_BLOCK\<close>: for a format that is neither, the two call each other
  without end, which the branch \<open>StackOverflow\<close> records.
\<close>

section \<open>Binary input\<close>

text \<open>
  Modelled from the spec: the \<open>DataInput\<close> type and its methods \<open>ReadByte\<close>,
  \<open>ReadBytes\<close>, \<open>ReadShort\<close>, \<open>ReadInt\<close> and \<open>ReadLong\<close> are used by the
  constructors but are not in the sources. The spec calls it a binary input stream
  with synchronous reads whose failures propagate as they are, and native-width
  elements in big-endian order. The model is the bytes still to come and the error
  every read past them returns. A read of several bytes takes them one at a time,
  most significant first; a read that fails gives no value, so the cell it was
  meant for keeps its content.
\<close>

datatype ioerr = EOF | ReadFault nat

record DataInput =
  avail :: "8 word list"
  fault :: ioerr

definition ReadByte :: "DataInput \<Rightarrow> (ioerr + 8 word) \<times> DataInput" where
  "ReadByte inp =
     (case avail inp of
        [] \<Rightarrow> (Inl (fault inp), inp)
      | b # bs \<Rightarrow> (Inr b, inp\<lparr>avail := bs\<rparr>))"

fun readBE :: "nat \<Rightarrow> 64 word \<Rightarrow> DataInput \<Rightarrow> (ioerr + 64 word) \<times> DataInput" where
  "readBE 0 acc inp = (Inr acc, inp)"
| "readBE (Suc k) acc inp =
     (case ReadByte inp of
        (Inl e, inp') \<Rightarrow> (Inl e, inp')
      | (Inr b, inp') \<Rightarrow> readBE k (push_bit 8 acc OR ucast b) inp')"

definition ReadShort :: "DataInput \<Rightarrow> (ioerr + 16 word) \<times> DataInput" where
  "ReadShort inp =
     (case readBE 2 0 inp of
        (Inl e, inp') \<Rightarrow> (Inl e, inp')
      | (Inr w, inp') \<Rightarrow> (Inr (ucast w), inp'))"

definition ReadInt :: "DataInput \<Rightarrow> (ioerr + 32 word) \<times> DataInput" where
  "ReadInt inp =
     (case readBE 4 0 inp of
        (Inl e, inp') \<Rightarrow> (Inl e, inp')
      | (Inr w, inp') \<Rightarrow> (Inr (ucast w), inp'))"

definition ReadLong :: "DataInput \<Rightarrow> (ioerr + 64 word) \<times> DataInput" where
  "ReadLong inp = readBE 8 0 inp"



section \<open>Loops of the constructors\<close>

text \<open>
  \<open>for i := range cells { if cells[i], err = read(); err != nil { break } }\<close>:
  the first argument counts the iterations left, \<open>i\<close> is the loop index. The result
  is the cells, the error the loop ended with (\<open>None\<close> for \<open>nil\<close>) and the input
  after the reads.
\<close>

fun readCells ::
  "(DataInput \<Rightarrow> (ioerr + 'a) \<times> DataInput) \<Rightarrow> nat \<Rightarrow> nat \<Rightarrow> 'a list \<Rightarrow> DataInput
     \<Rightarrow> 'a list \<times> ioerr option \<times> DataInput" where
  "readCells rd 0 i cells inp = (cells, None, inp)"
| "readCells rd (Suc k) i cells inp =
     (case rd inp of
        (Inl e, inp') \<Rightarrow> (cells, Some e, inp')
      | (Inr v, inp') \<Rightarrow> readCells rd k (Suc i) (cells[i := v]) inp')"

definition ReadBytes :: "8 word list \<Rightarrow> DataInput \<Rightarrow> 8 word list \<times> ioerr option \<times> DataInput" where
  "ReadBytes buf inp = readCells ReadByte (length buf) 0 buf inp"

text \<open>
  \<open>for i := 0; i < remaining; i++ { if _, err = in.ReadByte(); err != nil { break } }\<close>:
  the padding of streams older than the byte-aligned version is read and dropped.
\<close>

fun skipPadding :: "nat \<Rightarrow> DataInput \<Rightarrow> ioerr option \<times> DataInput" where
  "skipPadding 0 inp = (None, inp)"
| "skipPadding (Suc k) inp =
     (case ReadByte inp of
        (Inl e, inp') \<Rightarrow> (Some e, inp')
      | (Inr b, inp') \<Rightarrow> skipPadding k inp')"

text \<open>Arithmetic on \<open>int32\<close> wraps around.\<close>

definition int32 :: "int \<Rightarrow> int" where
  "int32 k = (k + 2 ^ 31) mod 2 ^ 32 - 2 ^ 31"

section \<open>Fixed-width readers\<close>

text \<open>
  A constructor from input returns the Go pair \<open>(r, err)\<close> and leaves the input
  advanced: the model returns the reader, the error (\<open>None\<close> for \<open>nil\<close>) and the
  input after the reads, or the panic that ended the call.
\<close>

type_synonym 'r built = "panic + ('r \<times> ioerr option \<times> DataInput)"

record PackedIntsReaderImpl =
  impl_bitsPerValue :: "32 word"
  impl_valueCount :: int

definition Size :: "'a PackedIntsReaderImpl_scheme \<Rightarrow> int" where
  "Size p = impl_valueCount p"

record Direct8 = PackedIntsReaderImpl +
  values8 :: "8 word list"

definition newDirect8 :: "int \<Rightarrow> panic + Direct8" where
  "newDirect8 valueCount =
     (if valueCount < 0 then Inl MakeSliceLenOutOfRange
      else Inr \<lparr>impl_bitsPerValue = 8, impl_valueCount = valueCount,
                values8 = replicate (nat valueCount) 0\<rparr>)"

definition newDirect8FromInput :: "int \<Rightarrow> DataInput \<Rightarrow> int \<Rightarrow> Direct8 built" where
  "newDirect8FromInput version inp valueCount =
     (case newDirect8 valueCount of
        Inl p \<Rightarrow> Inl p
      | Inr r \<Rightarrow>
          (case ReadBytes (values8 r) inp of
             (vs, Some e, inp1) \<Rightarrow> Inr (r\<lparr>values8 := vs\<rparr>, Some e, inp1)
           | (vs, None, inp1) \<Rightarrow>
               (case ByteCount PACKED version valueCount 8 of
                  Inl p \<Rightarrow> Inl p
                | Inr byteCount \<Rightarrow>
                    (case skipPadding (nat (byteCount - valueCount)) inp1 of
                       (err, inp2) \<Rightarrow> Inr (r\<lparr>values8 := vs\<rparr>, err, inp2)))))"

record Direct16 = PackedIntsReaderImpl +
  values16 :: "16 word list"

definition newDirect16 :: "int \<Rightarrow> panic + Direct16" where
  "newDirect16 valueCount =
     (if valueCount < 0 then Inl MakeSliceLenOutOfRange
      else Inr \<lparr>impl_bitsPerValue = 16, impl_valueCount = valueCount,
                values16 = replicate (nat valueCount) 0\<rparr>)"

definition newDirect16FromInput :: "int \<Rightarrow> DataInput \<Rightarrow> int \<Rightarrow> Direct16 built" where
  "newDirect16FromInput version inp valueCount =
     (case newDirect16 valueCount of
        Inl p \<Rightarrow> Inl p
      | Inr r \<Rightarrow>
          (case readCells ReadShort (length (values16 r)) 0 (values16 r) inp of
             (vs, Some e, inp1) \<Rightarrow> Inr (r\<lparr>values16 := vs\<rparr>, Some e, inp1)
           | (vs, None, inp1) \<Rightarrow>
               (case ByteCount PACKED version valueCount 16 of
                  Inl p \<Rightarrow> Inl p
                | Inr byteCount \<Rightarrow>
                    (case skipPadding (nat (byteCount - int32 (2 * valueCount))) inp1 of
                       (err, inp2) \<Rightarrow> Inr (r\<lparr>values16 := vs\<rparr>, err, inp2)))))"

record Direct32 = PackedIntsReaderImpl +
  values32 :: "32 word list"

definition newDirect32 :: "int \<Rightarrow> panic + Direct32" where
  "newDirect32 valueCount =
     (if valueCount < 0 then Inl MakeSliceLenOutOfRange
      else Inr \<lparr>impl_bitsPerValue = 32, impl_valueCount = valueCount,
                values32 = replicate (nat valueCount) 0\<rparr>)"

definition newDirect32FromInput :: "int \<Rightarrow> DataInput \<Rightarrow> int \<Rightarrow> Direct32 built" where
  "newDirect32FromInput version inp valueCount =
     (case newDirect32 valueCount of
        Inl p \<Rightarrow> Inl p
      | Inr r \<Rightarrow>
          (case readCells ReadInt (length (values32 r)) 0 (values32 r) inp of
             (vs, Some e, inp1) \<Rightarrow> Inr (r\<lparr>values32 := vs\<rparr>, Some e, inp1)
           | (vs, None, inp1) \<Rightarrow>
               (case ByteCount PACKED version valueCount 32 of
                  Inl p \<Rightarrow> Inl p
                | Inr byteCount \<Rightarrow>
                    (case skipPadding (nat (byteCount - int32 (4 * valueCount))) inp1 of
                       (err, inp2) \<Rightarrow> Inr (r\<lparr>values32 := vs\<rparr>, err, inp2)))))"

text \<open>
  The source declares \<open>newDirect64\<close> with the result type and the cell type of
  \<open>Direct32\<close>; the struct \<open>Direct64\<close> has \<open>int64\<close> cells, filled by
  \<open>ReadLong\<close>, and that is what is modelled. This constructor reads no padding.
\<close>

record Direct64 = PackedIntsReaderImpl +
  values64 :: "64 word list"

definition newDirect64 :: "int \<Rightarrow> panic + Direct64" where
  "newDirect64 valueCount =
     (if valueCount < 0 then Inl MakeSliceLenOutOfRange
      else Inr \<lparr>impl_bitsPerValue = 64, impl_valueCount = valueCount,
                values64 = replicate (nat valueCount) 0\<rparr>)"

definition newDirect64FromInput :: "int \<Rightarrow> DataInput \<Rightarrow> int \<Rightarrow> Direct64 built" where
  "newDirect64FromInput version inp valueCount =
     (case newDirect64 valueCount of
        Inl p \<Rightarrow> Inl p
      | Inr r \<Rightarrow>
          (case readCells ReadLong (length (values64 r)) 0 (values64 r) inp of
             (vs, err, inp1) \<Rightarrow> Inr (r\<lparr>values64 := vs\<rparr>, err, inp1)))"

definition PACKED8_THREE_BLOCKS_MAX_SIZE :: int where
  "PACKED8_THREE_BLOCKS_MAX_SIZE = 2147483647 sdiv 3"

record Packed8ThreeBlocks = PackedIntsReaderImpl +
  blocks8 :: "8 word list"

definition newPacked8ThreeBlocks :: "int \<Rightarrow> panic + Packed8ThreeBlocks" where
  "newPacked8ThreeBlocks valueCount =
     (if valueCount > PACKED8_THREE_BLOCKS_MAX_SIZE then Inl MaxSizeExceeded
      else if int32 (valueCount * 3) < 0 then Inl MakeSliceLenOutOfRange
      else Inr \<lparr>impl_bitsPerValue = 24, impl_valueCount = valueCount,
                blocks8 = replicate (nat (int32 (valueCount * 3))) 0\<rparr>)"

definition newPacked8ThreeBlocksFromInput ::
  "int \<Rightarrow> DataInput \<Rightarrow> int \<Rightarrow> Packed8ThreeBlocks built" where
  "newPacked8ThreeBlocksFromInput version inp valueCount =
     (case newPacked8ThreeBlocks valueCount of
        Inl p \<Rightarrow> Inl p
      | Inr r \<Rightarrow>
          (case ReadBytes (blocks8 r) inp of
             (bs, Some e, inp1) \<Rightarrow> Inr (r\<lparr>blocks8 := bs\<rparr>, Some e, inp1)
           | (bs, None, inp1) \<Rightarrow>
               (case ByteCount PACKED version valueCount 24 of
                  Inl p \<Rightarrow> Inl p
                | Inr byteCount \<Rightarrow>
                    (case skipPadding (nat (byteCount - int32 (3 * valueCount))) inp1 of
                       (err, inp2) \<Rightarrow> Inr (r\<lparr>blocks8 := bs\<rparr>, err, inp2)))))"

text \<open>
  \<open>blocks[o]<<16 | blocks[o+1]<<8 | blocks[o+2]\<close> on a \<open>[]byte\<close>: the operands are
  bytes, so Go shifts and combines them as 8-bit values; the 8-bit result is returned
  as the method's \<open>int64\<close>. An index outside the slice panics. The source's \<open>o\<close> is
  \<open>off\<close> here.
\<close>

definition index8 :: "8 word list \<Rightarrow> int \<Rightarrow> panic + 8 word" where
  "index8 cells i =
     (if 0 \<le> i \<and> i < int (length cells) then Inr (cells ! nat i) else Inl IndexOutOfRange)"

definition Packed8ThreeBlocks_Get :: "Packed8ThreeBlocks \<Rightarrow> int \<Rightarrow> panic + 64 word" where
  "Packed8ThreeBlocks_Get r index =
     (let off = int32 (index * 3) in
      case index8 (blocks8 r) off of
        Inl p \<Rightarrow> Inl p
      | Inr b0 \<Rightarrow>
          (case index8 (blocks8 r) (int32 (off + 1)) of
             Inl p \<Rightarrow> Inl p
           | Inr b1 \<Rightarrow>
               (case index8 (blocks8 r) (int32 (off + 2)) of
                  Inl p \<Rightarrow> Inl p
                | Inr b2 \<Rightarrow> Inr (ucast (push_bit 16 b0 OR push_bit 8 b1 OR b2)))))"

definition PACKED16_THREE_BLOCKS_MAX_SIZE :: int where
  "PACKED16_THREE_BLOCKS_MAX_SIZE = 2147483647 sdiv 3"

record Packed16ThreeBlocks = PackedIntsReaderImpl +
  blocks16 :: "16 word list"

definition newPacked16ThreeBlocks :: "int \<Rightarrow> panic + Packed16ThreeBlocks" where
  "newPacked16ThreeBlocks valueCount =
     (if valueCount > PACKED16_THREE_BLOCKS_MAX_SIZE then Inl MaxSizeExceeded
      else if int32 (valueCount * 3) < 0 then Inl MakeSliceLenOutOfRange
      else Inr \<lparr>impl_bitsPerValue = 48, impl_valueCount = valueCount,
                blocks16 = replicate (nat (int32 (valueCount * 3))) 0\<rparr>)"

definition newPacked16ThreeBlocksFromInput ::
  "int \<Rightarrow> DataInput \<Rightarrow> int \<Rightarrow> Packed16ThreeBlocks built" where
  "newPacked16ThreeBlocksFromInput version inp valueCount =
     (case newPacked16ThreeBlocks valueCount of
        Inl p \<Rightarrow> Inl p
      | Inr ans \<Rightarrow>
          (case readCells ReadShort (length (blocks16 ans)) 0 (blocks16 ans) inp of
             (bs, Some e, inp1) \<Rightarrow> Inr (ans\<lparr>blocks16 := bs\<rparr>, Some e, inp1)
           | (bs, None, inp1) \<Rightarrow>
               (case ByteCount PACKED version valueCount 48 of
                  Inl p \<Rightarrow> Inl p
                | Inr byteCount \<Rightarrow>
                    (case skipPadding (nat (byteCount - int32 (int32 (3 * valueCount) * 2))) inp1 of
                       (err, inp2) \<Rightarrow> Inr (ans\<lparr>blocks16 := bs\<rparr>, err, inp2)))))"

section \<open>General bit-packed reader\<close>

definition PACKED64_BLOCK_SIZE :: "32 word" where
  "PACKED64_BLOCK_SIZE = 64"

record Packed64 = PackedIntsReaderImpl +
  blocks :: "64 word list"
  maskRight :: "64 word"
  bpvMinusBlockSize :: "32 word"

text \<open>
  \<open>uint64(^(int64(0)) << (64 - bitsPerValue)) >> (64 - bitsPerValue)\<close>: the shift
  count is a \<open>uint32\<close> difference, which wraps; a Go shift by the word size or more
  gives 0, as \<open>push_bit\<close> and \<open>drop_bit\<close> do; the right shift is on a \<open>uint64\<close>
  and so logical.
\<close>

definition newPacked64 :: "int \<Rightarrow> 32 word \<Rightarrow> panic + Packed64" where
  "newPacked64 valueCount bitsPerValue =
     (case longCount PACKED PACKED_VERSION_CURRENT valueCount bitsPerValue of
        Inl p \<Rightarrow> Inl p
      | Inr n \<Rightarrow>
          if n < 0 then Inl MakeSliceLenOutOfRange
          else Inr \<lparr>impl_bitsPerValue = bitsPerValue, impl_valueCount = valueCount,
                    blocks = replicate (nat n) 0,
                    maskRight =
                      drop_bit (unat (PACKED64_BLOCK_SIZE - bitsPerValue))
                        (push_bit (unat (PACKED64_BLOCK_SIZE - bitsPerValue)) (NOT 0)),
                    bpvMinusBlockSize = bitsPerValue - PACKED64_BLOCK_SIZE\<rparr>)"

text \<open>
  \<open>for i := 0; i < byteCount/8; i++ { if ans.blocks[i], err = in.ReadLong(); ... }\<close>:
  the bound is not the slice's length, so the index is checked.
\<close>

fun readLongs ::
  "nat \<Rightarrow> nat \<Rightarrow> 64 word list \<Rightarrow> DataInput
     \<Rightarrow> panic + (64 word list \<times> ioerr option \<times> DataInput)" where
  "readLongs 0 i cells inp = Inr (cells, None, inp)"
| "readLongs (Suc k) i cells inp =
     (case ReadLong inp of
        (r, inp') \<Rightarrow>
          if length cells \<le> i then Inl IndexOutOfRange
          else (case r of
                  Inl e \<Rightarrow> Inr (cells, Some e, inp')
                | Inr v \<Rightarrow> readLongs k (Suc i) (cells[i := v]) inp'))"

text \<open>
  The loop over the trailing bytes. \<open>b, err := in.ReadByte()\<close> declares a new \<open>err\<close>
  inside the loop body: a failed read ends the loop and its error is dropped. The
  shift count \<open>5 - i*8\<close> is a signed \<open>int\<close>; Go panics on a negative one.
\<close>

fun readLastBytes :: "nat \<Rightarrow> int \<Rightarrow> 64 word \<Rightarrow> DataInput \<Rightarrow> panic + (64 word \<times> DataInput)" where
  "readLastBytes 0 i lastLong inp = Inr (lastLong, inp)"
| "readLastBytes (Suc k) i lastLong inp =
     (case ReadByte inp of
        (Inl e, inp') \<Rightarrow> Inr (lastLong, inp')
      | (Inr b, inp') \<Rightarrow>
          if 5 - i * 8 < 0 then Inl NegativeShiftAmount
          else readLastBytes k (i + 1) (lastLong OR push_bit (nat (5 - i * 8)) (ucast b)) inp')"

definition newPacked64FromInput :: "int \<Rightarrow> DataInput \<Rightarrow> int \<Rightarrow> 32 word \<Rightarrow> Packed64 built" where
  "newPacked64FromInput version inp valueCount bitsPerValue =
     (case newPacked64 valueCount bitsPerValue of
        Inl p \<Rightarrow> Inl p
      | Inr ans \<Rightarrow>
     (case ByteCount PACKED version valueCount bitsPerValue of
        Inl p \<Rightarrow> Inl p
      | Inr byteCount \<Rightarrow>
     (case longCount PACKED PACKED_VERSION_CURRENT valueCount bitsPerValue of
        Inl p \<Rightarrow> Inl p
      | Inr n \<Rightarrow>
          if n < 0 then Inl MakeSliceLenOutOfRange
          else
            (case readLongs (nat (byteCount sdiv 8)) 0 (replicate (nat n) 0) inp of
               Inl p \<Rightarrow> Inl p
             | Inr (bs, Some e, inp1) \<Rightarrow> Inr (ans\<lparr>blocks := bs\<rparr>, Some e, inp1)
             | Inr (bs, None, inp1) \<Rightarrow>
                 (let remaining = byteCount smod 8 in
                  if remaining \<noteq> 0 then
                    (case readLastBytes (nat remaining) 0 0 inp1 of
                       Inl p \<Rightarrow> Inl p
                     | Inr (lastLong, inp2) \<Rightarrow>
                         if bs = [] then Inl IndexOutOfRange
                         else Inr (ans\<lparr>blocks := bs[length bs - 1 := lastLong]\<rparr>, None, inp2))
                  else Inr (ans\<lparr>blocks := bs\<rparr>, None, inp1))))))"

section \<open>Reader factory\<close>

text \<open>
  The interface \<open>PackedIntsReader\<close> is the closed set of readers the factory returns.
  \<open>newPacked64SingleBlockFromInput\<close> and its reader type are not in the sources: the
  factory takes the function as its first argument.
\<close>

datatype 'sb PackedIntsReader =
    Direct8Reader Direct8
  | Direct16Reader Direct16
  | Direct32Reader Direct32
  | Direct64Reader Direct64
  | Packed8ThreeBlocksReader Packed8ThreeBlocks
  | Packed16ThreeBlocksReader Packed16ThreeBlocks
  | Packed64Reader Packed64
  | Packed64SingleBlockReader 'sb

definition as_reader :: "('r \<Rightarrow> 'sb PackedIntsReader) \<Rightarrow> 'r built \<Rightarrow> 'sb PackedIntsReader built" where
  "as_reader C res =
     (case res of
        Inl p \<Rightarrow> Inl p
      | Inr (r, err, inp') \<Rightarrow> Inr (C r, err, inp'))"

definition newPackedHeaderNoHeader ::
  "(DataInput \<Rightarrow> int \<Rightarrow> 32 word \<Rightarrow> 'sb built) \<Rightarrow> DataInput \<Rightarrow> int \<Rightarrow> int \<Rightarrow> int \<Rightarrow> 32 word
     \<Rightarrow> 'sb PackedIntsReader built" where
  "newPackedHeaderNoHeader newPacked64SingleBlockFromInput inp format version valueCount
       bitsPerValue =
     (case CheckVersion version of
        Inl p \<Rightarrow> Inl p
      | Inr _ \<Rightarrow>
          if format = PACKED_SINGLE_BLOCK then
            as_reader Packed64SingleBlockReader
              (newPacked64SingleBlockFromInput inp valueCount bitsPerValue)
          else if format = PACKED then
            (if bitsPerValue = 8 then
               as_reader Direct8Reader (newDirect8FromInput version inp valueCount)
             else if bitsPerValue = 16 then
               as_reader Direct16Reader (newDirect16FromInput version inp valueCount)
             else if bitsPerValue = 32 then
               as_reader Direct32Reader (newDirect32FromInput version inp valueCount)
             else if bitsPerValue = 64 then
               as_reader Direct64Reader (newDirect64FromInput version inp valueCount)
             else if bitsPerValue = 24 \<and> valueCount \<le> PACKED8_THREE_BLOCKS_MAX_SIZE then
               as_reader Packed8ThreeBlocksReader
                 (newPacked8ThreeBlocksFromInput version inp valueCount)
             else if bitsPerValue = 48 \<and> valueCount \<le> PACKED16_THREE_BLOCKS_MAX_SIZE then
               as_reader Packed16ThreeBlocksReader
                 (newPacked16ThreeBlocksFromInput version inp valueCount)
             else
               as_reader Packed64Reader
                 (newPacked64FromInput version inp valueCount bitsPerValue))
          else Inl (UnknownFormat format))"

section \<open>Bulk encoder and decoder\<close>

text \<open>
  \<open>newBulkOperation\<close> is not in the sources: both functions take it as their first
  argument, as a function that returns an object or panics.
\<close>

definition GetPackedIntsEncoder ::
  "(int \<Rightarrow> 32 word \<Rightarrow> panic + 'op) \<Rightarrow> int \<Rightarrow> int \<Rightarrow> 32 word \<Rightarrow> panic + 'op" where
  "GetPackedIntsEncoder newBulkOperation format version bitsPerValue =
     (case CheckVersion version of
        Inl p \<Rightarrow> Inl p
      | Inr _ \<Rightarrow> newBulkOperation format bitsPerValue)"

definition GetPackedIntsDecoder ::
  "(int \<Rightarrow> 32 word \<Rightarrow> panic + 'op) \<Rightarrow> int \<Rightarrow> int \<Rightarrow> 32 word \<Rightarrow> panic + 'op" where
  "GetPackedIntsDecoder newBulkOperation format version bitsPerValue =
     (case CheckVersion version of
        Inl p \<Rightarrow> Inl p
      | Inr _ \<Rightarrow> newBulkOperation format bitsPerValue)"

section \<open>Growable writer\<close>

text \<open>
  The sources declare \<open>GrowableWriter\<close> with its field \<open>current\<close> and the methods
  \<open>Get\<close> and \<open>Size\<close>, which delegate to the backing.
\<close>

text \<open>
  Modelled from the spec: the backing Mutable (its allocation, \<open>Get\<close>, \<open>Set\<close> and
  \<open>Size\<close>), the computation of the width a value needs, the copy of the values and
  \<open>GrowableWriter.Set\<close> are not in the sources. The spec gives a Mutable a fixed bit
  width and a fixed value count, with \<open>Set(index, value)\<close> for a value that fits the
  width. The writer's \<open>Set\<close> delegates when the value fits the current width;
  otherwise it computes the minimum bit width that accommodates the value, allocates
  a new Mutable of that width and the same value count, copies every existing value
  across, replaces the backing, and then performs the set. The model keeps the
  cells as 64-bit words and lets a Mutable store the low bits of a value that is too
  wide, so that such a value is not read back from it.
\<close>

record Mutable =
  mut_bitsPerValue :: nat
  mut_cells :: "64 word list"

definition newMutable :: "int \<Rightarrow> nat \<Rightarrow> panic + Mutable" where
  "newMutable valueCount bitsPerValue =
     (if valueCount < 0 then Inl MakeSliceLenOutOfRange
      else Inr \<lparr>mut_bitsPerValue = bitsPerValue,
                mut_cells = replicate (nat valueCount) 0\<rparr>)"

definition Mutable_Size :: "Mutable \<Rightarrow> int" where
  "Mutable_Size m = int (length (mut_cells m))"

definition Mutable_Get :: "Mutable \<Rightarrow> int \<Rightarrow> panic + 64 word" where
  "Mutable_Get m index =
     (if 0 \<le> index \<and> index < int (length (mut_cells m)) then Inr (mut_cells m ! nat index)
      else Inl IndexOutOfRange)"

definition Mutable_Set :: "Mutable \<Rightarrow> int \<Rightarrow> 64 word \<Rightarrow> panic + Mutable" where
  "Mutable_Set m index v =
     (if 0 \<le> index \<and> index < int (length (mut_cells m))
      then Inr (m\<lparr>mut_cells := (mut_cells m)[nat index := take_bit (mut_bitsPerValue m) v]\<rparr>)
      else Inl IndexOutOfRange)"

fun bitlen :: "nat \<Rightarrow> nat" where
  "bitlen n = (if n = 0 then 0 else Suc (bitlen (n div 2)))"

declare bitlen.simps [simp del]

definition bitsRequired :: "64 word \<Rightarrow> nat" where
  "bitsRequired v = max 1 (bitlen (unat v))"

fun copyValues :: "nat \<Rightarrow> nat \<Rightarrow> Mutable \<Rightarrow> Mutable \<Rightarrow> panic + Mutable" where
  "copyValues 0 i src dst = Inr dst"
| "copyValues (Suc k) i src dst =
     (case Mutable_Get src (int i) of
        Inl p \<Rightarrow> Inl p
      | Inr v \<Rightarrow>
          (case Mutable_Set dst (int i) v of
             Inl p \<Rightarrow> Inl p
           | Inr dst' \<Rightarrow> copyValues k (Suc i) src dst'))"

record GrowableWriter =
  current :: Mutable

definition GrowableWriter_Get :: "GrowableWriter \<Rightarrow> int \<Rightarrow> panic + 64 word" where
  "GrowableWriter_Get w index = Mutable_Get (current w) index"

definition GrowableWriter_Size :: "GrowableWriter \<Rightarrow> int" where
  "GrowableWriter_Size w = Mutable_Size (current w)"

definition GrowableWriter_Set :: "GrowableWriter \<Rightarrow> int \<Rightarrow> 64 word \<Rightarrow> panic + GrowableWriter" where
  "GrowableWriter_Set w index v =
     (if take_bit (mut_bitsPerValue (current w)) v = v then
        (case Mutable_Set (current w) index v of
           Inl p \<Rightarrow> Inl p
         | Inr m \<Rightarrow> Inr (w\<lparr>current := m\<rparr>))
      else
        (case newMutable (GrowableWriter_Size w) (bitsRequired v) of
           Inl p \<Rightarrow> Inl p
         | Inr next \<Rightarrow>
             (case copyValues (nat (GrowableWriter_Size w)) 0 (current w) next of
                Inl p \<Rightarrow> Inl p
              | Inr next' \<Rightarrow>
                  (case Mutable_Set next' index v of
                     Inl p \<Rightarrow> Inl p
                   | Inr m \<Rightarrow> Inr (w\<lparr>current := m\<rparr>)))))"

text \<open>
  The values a Mutable holds fit its width: so for a fresh Mutable, and so after
  every \<open>Set\<close>.
\<close>

definition fits_width :: "Mutable \<Rightarrow> bool" where
  "fits_width m = list_all (\<lambda>c. take_bit (mut_bitsPerValue m) c = c) (mut_cells m)"

section \<open>Helper facts on ceilings\<close>

lemma ceiling_div_8: "\<lceil>real_of_int k / 8\<rceil> = (k + 7) div 8"
proof -
  have "\<lceil>real_of_int k / 8\<rceil> = - ((- k) div 8)"
    using ceiling_divide_eq_div [of k 8, where 'a = real] by simp
  also have "\<dots> = (k + 7) div 8"
    by linarith
  finally show ?thesis .
qed

lemma ceiling_div_64: "\<lceil>real_of_int k / 64\<rceil> = (k + 63) div 64"
proof -
  have "\<lceil>real_of_int k / 64\<rceil> = - ((- k) div 64)"
    using ceiling_divide_eq_div [of k 64, where 'a = real] by simp
  also have "\<dots> = (k + 63) div 64"
    by linarith
  finally show ?thesis .
qed

lemma ceil64_bounds:
  fixes x :: int
  shows "64 * ((x + 63) div 64) - 64 < x \<and> x \<le> 64 * ((x + 63) div 64)"
proof -
  define q where "q = (x + 63) div 64"
  define r where "r = (x + 63) mod 64"
  have "64 * q + r = x + 63"
    by (simp add: q_def r_def)
  moreover have "0 \<le> r" and "r < 64"
    by (simp_all add: r_def)
  ultimately have "64 * q - 64 < x \<and> x \<le> 64 * q"
    by linarith
  then show ?thesis
    by (simp add: q_def)
qed

lemma ceil8_bounds:
  fixes x :: int
  shows "8 * ((x + 7) div 8) - 8 < x \<and> x \<le> 8 * ((x + 7) div 8)"
proof -
  define q where "q = (x + 7) div 8"
  define r where "r = (x + 7) mod 8"
  have "8 * q + r = x + 7"
    by (simp add: q_def r_def)
  moreover have "0 \<le> r" and "r < 8"
    by (simp_all add: r_def)
  ultimately have "8 * q - 8 < x \<and> x \<le> 8 * q"
    by linarith
  then show ?thesis
    by (simp add: q_def)
qed

lemma float64_exact_packed:
  assumes "0 \<le> n" "n < 2 ^ 31" "uint b \<le> 64"
  shows "float64_exact (n * uint b)"
proof -
  have "0 \<le> uint b" by simp
  have "n * uint b \<le> n * 64"
    using assms by (intro mult_left_mono) auto
  moreover have "0 \<le> n * uint b"
    using assms by simp
  ultimately show ?thesis
    using assms by (simp add: float64_exact_def)
qed

lemma ByteCount_PACKED:
  assumes "0 \<le> n" "n < 2 ^ 31" "uint b \<le> 64"
  shows "ByteCount PACKED v n b =
           Inr (if v < PACKED_VERSION_BYTE_ALIGNED then 8 * ((n * uint b + 63) div 64)
                else (n * uint b + 7) div 8)"
proof -
  have ex: "float64_exact (n * uint b)"
    using assms by (rule float64_exact_packed)
  have r: "real_of_int n * real_of_int (uint b) = real_of_int (n * uint b)"
    by simp
  show ?thesis
    by (simp only: ByteCount.simps [of PACKED] ex r ceiling_div_8 ceiling_div_64
          if_True if_False not_True_eq_False simp_thms if_distrib [of Inr])
qed

section \<open>Helper facts on the input and the loops\<close>












section \<open>Helper facts on the constructors from input\<close>

text \<open>
  Each constructor's result, in full: the reader with the cells the reads have left,
  the error, and the input after the reads.
\<close>

lemma int32_id: "- (2 ^ 31) \<le> k \<Longrightarrow> k < 2 ^ 31 \<Longrightarrow> int32 k = k"
  by (simp add: int32_def)







section \<open>Helper facts on the general reader\<close>

lemma sdiv8_nonneg: "(0::int) \<le> a \<Longrightarrow> a sdiv 8 = a div 8"
  by (simp add: signed_divide_int_def sgn_if)

lemma longCount_PACKED:
  assumes "0 \<le> n" and "n < 2 ^ 31" and "uint b \<le> 64"
  shows "\<exists>l. longCount PACKED v n b = Inr l \<and> 0 \<le> l"
proof -
  define ans where "ans = (if v < PACKED_VERSION_BYTE_ALIGNED then 8 * ((n * uint b + 63) div 64)
                else (n * uint b + 7) div 8)"
  have bc: "ByteCount PACKED v n b = Inr ans"
    unfolding ans_def using assms by (rule ByteCount_PACKED)
  have "0 \<le> n * uint b"
    using assms(1) by simp
  then have "0 \<le> (n * uint b + 63) div 64" and "0 \<le> (n * uint b + 7) div 8"
    by (simp_all add: pos_imp_zdiv_nonneg_iff)
  then have ans0: "0 \<le> ans"
    by (simp add: ans_def)
  then have "0 \<le> ans div 8"
    by (simp add: pos_imp_zdiv_nonneg_iff)
  moreover have "longCount PACKED v n b =
      (if ans smod 8 = 0 then Inr (ans sdiv 8) else Inr (ans sdiv 8 + 1))"
    unfolding longCount.simps [of PACKED] bc
    by (simp add: PACKED_def PACKED_SINGLE_BLOCK_def)
  ultimately show ?thesis
    by (simp add: sdiv8_nonneg [OF ans0])
qed

lemma unat_mask64:
  assumes "k \<le> 64"
  shows "unat (mask k :: 64 word) = 2 ^ k - 1"
proof -
  have "uint (mask k :: 64 word) = (mask k :: int)"
    using assms by (simp add: uint_mask_eq min_def)
  also have "(mask k :: int) = 2 ^ k - 1"
    by (rule mask_eq_exp_minus_1)
  finally have "uint (mask k :: 64 word) = 2 ^ k - 1" .
  then have "unat (mask k :: 64 word) = nat (2 ^ k - 1)"
    by (simp add: unat_eq_nat_uint)
  also have "\<dots> = 2 ^ k - 1"
    by (simp add: nat_diff_distrib nat_power_eq)
  finally show ?thesis .
qed

lemma maskRight_value:
  fixes b :: "32 word"
  assumes "1 \<le> uint b" and "uint b \<le> 64"
  shows "drop_bit (unat (PACKED64_BLOCK_SIZE - b)) (push_bit (unat (PACKED64_BLOCK_SIZE - b)) (NOT 0 :: 64 word))
           = mask (unat b)"
proof -
  have "uint b = int (unat b)"
    by (rule uint_nat)
  with assms have ub: "1 \<le> unat b" "unat b \<le> 64"
    by linarith+
  have "b \<le> 64"
    using ub(2) by (simp add: word_le_nat_alt)
  then have s: "unat (PACKED64_BLOCK_SIZE - b) = 64 - unat b"
    by (simp add: PACKED64_BLOCK_SIZE_def unat_sub)
  have "64 - unat b < 64"
    using ub by simp
  then have "drop_bit (64 - unat b) (push_bit (64 - unat b) (NOT 0 :: 64 word)) = mask (64 - (64 - unat b))"
    by (intro bit_word_eqI) (auto simp: bit_simps)
  also have "64 - (64 - unat b) = unat b"
    using ub by simp
  finally show ?thesis
    by (simp only: s)
qed

section \<open>Helper facts on the triple-byte reader\<close>

text \<open>
  Inside the slice, \<open>Get\<close> returns the third byte of the triple alone: the two
  shifted bytes are shifted out of their 8 bits.
\<close>

lemma Packed8ThreeBlocks_Get_in_range:
  assumes "0 \<le> i" and "3 * i + 2 < int (length (blocks8 r))" and "length (blocks8 r) < 2 ^ 31"
  shows "Packed8ThreeBlocks_Get r i = Inr (ucast (blocks8 r ! nat (3 * i + 2)))"
proof -
  have o: "int32 (i * 3) = 3 * i"
    using assms by (simp add: int32_id)
  have o1: "int32 (3 * i + 1) = 3 * i + 1" and o2: "int32 (3 * i + 2) = 3 * i + 2"
    using assms by (simp_all add: int32_id)
  have sh: "push_bit 16 (x :: 8 word) = 0" "push_bit 8 (x :: 8 word) = 0" for x
    by (rule bit_word_eqI; simp add: bit_simps)+
  show ?thesis
    using assms by (simp add: Packed8ThreeBlocks_Get_def o o1 o2 index8_def sh)
qed

section \<open>Helper facts on the growable writer\<close>

lemma bitlen_bound: "n < 2 ^ bitlen n"
proof (induction n rule: bitlen.induct)
  case (1 n)
  show ?case
  proof (cases "n = 0")
    case True
    then show ?thesis
      by (simp add: bitlen.simps)
  next
    case False
    with 1 have "n div 2 < 2 ^ bitlen (n div 2)"
      by simp
    then have "n < 2 * 2 ^ bitlen (n div 2)"
      by linarith
    with False show ?thesis
      by (simp add: bitlen.simps [of n])
  qed
qed

lemma bitlen_least: "n < 2 ^ k \<Longrightarrow> bitlen n \<le> k"
proof (induction k arbitrary: n)
  case 0
  then show ?case
    by (simp add: bitlen.simps)
next
  case (Suc k)
  show ?case
  proof (cases "n = 0")
    case True
    then show ?thesis
      by (simp add: bitlen.simps)
  next
    case False
    from Suc.prems have "n div 2 < 2 ^ k"
      by simp
    from Suc.IH [OF this] False show ?thesis
      by (simp add: bitlen.simps [of n])
  qed
qed

lemma fits_iff:
  fixes v :: "64 word"
  shows "take_bit k v = v \<longleftrightarrow> unat v < 2 ^ k"
proof -
  have "take_bit k v = v \<longleftrightarrow> unat (take_bit k v) = unat v"
    by (simp add: word_unat_eq_iff)
  also have "\<dots> \<longleftrightarrow> take_bit k (unat v) = unat v"
    by (simp add: unsigned_take_bit_eq)
  also have "\<dots> \<longleftrightarrow> unat v < 2 ^ k"
    by (rule take_bit_nat_eq_self_iff)
  finally show ?thesis .
qed

lemma fits_mono:
  fixes v :: "64 word"
  assumes "take_bit k v = v" and "k \<le> k'"
  shows "take_bit k' v = v"
proof -
  from assms(1) have "unat v < 2 ^ k"
    by (simp add: fits_iff)
  also from assms(2) have "(2::nat) ^ k \<le> 2 ^ k'"
    by (rule power_increasing) simp
  finally show ?thesis
    by (simp add: fits_iff)
qed

lemma bitsRequired_fits: "take_bit (bitsRequired v) v = v"
proof -
  have "unat v < 2 ^ bitlen (unat v)"
    by (rule bitlen_bound)
  also have "(2::nat) ^ bitlen (unat v) \<le> 2 ^ bitsRequired v"
    by (rule power_increasing) (simp_all add: bitsRequired_def)
  finally show ?thesis
    by (simp add: fits_iff)
qed

lemma bitsRequired_least:
  assumes "take_bit k v = v" and "1 \<le> k"
  shows "bitsRequired v \<le> k"
proof -
  from assms(1) have "unat v < 2 ^ k"
    by (simp add: fits_iff)
  then have "bitlen (unat v) \<le> k"
    by (rule bitlen_least)
  with assms(2) show ?thesis
    by (simp add: bitsRequired_def)
qed

lemma bitsRequired_greater:
  assumes "take_bit k v \<noteq> v"
  shows "k < bitsRequired v"
proof (rule ccontr)
  assume "\<not> k < bitsRequired v"
  then have "bitsRequired v \<le> k"
    by simp
  with bitsRequired_fits have "take_bit k v = v"
    by (rule fits_mono)
  with assms show False
    by simp
qed

lemma copyValues_result:
  assumes "i + k \<le> length (mut_cells dst)"
    and "length (mut_cells src) = length (mut_cells dst)"
  shows "\<exists>dst'. copyValues k i src dst = Inr dst'
           \<and> mut_bitsPerValue dst' = mut_bitsPerValue dst
           \<and> length (mut_cells dst') = length (mut_cells dst)
           \<and> (\<forall>j < length (mut_cells dst). mut_cells dst' ! j =
                 (if i \<le> j \<and> j < i + k
                  then take_bit (mut_bitsPerValue dst) (mut_cells src ! j)
                  else mut_cells dst ! j))"
  using assms
proof (induction k arbitrary: i dst)
  case 0
  then show ?case by auto
next
  case (Suc k)
  let ?d = "dst\<lparr>mut_cells := (mut_cells dst)[i := take_bit (mut_bitsPerValue dst) (mut_cells src ! i)]\<rparr>"
  from Suc.prems have g: "Mutable_Get src (int i) = Inr (mut_cells src ! i)"
    by (simp add: Mutable_Get_def)
  from Suc.prems have s: "Mutable_Set dst (int i) (mut_cells src ! i) = Inr ?d"
    by (simp add: Mutable_Set_def)
  from Suc.prems have "Suc i + k \<le> length (mut_cells ?d)"
    and "length (mut_cells src) = length (mut_cells ?d)"
    by simp_all
  from Suc.IH [OF this] obtain dst' where d: "copyValues k (Suc i) src ?d = Inr dst'"
    "mut_bitsPerValue dst' = mut_bitsPerValue dst"
    "length (mut_cells dst') = length (mut_cells dst)"
    "\<forall>j < length (mut_cells dst). mut_cells dst' ! j =
        (if Suc i \<le> j \<and> j < Suc i + k
         then take_bit (mut_bitsPerValue dst) (mut_cells src ! j)
         else (mut_cells dst)[i := take_bit (mut_bitsPerValue dst) (mut_cells src ! i)] ! j)"
    by auto
  have "\<forall>j < length (mut_cells dst). mut_cells dst' ! j =
          (if i \<le> j \<and> j < i + Suc k
           then take_bit (mut_bitsPerValue dst) (mut_cells src ! j)
           else mut_cells dst ! j)"
  proof (intro allI impI)
    fix j
    assume j: "j < length (mut_cells dst)"
    with d(4) show "mut_cells dst' ! j =
          (if i \<le> j \<and> j < i + Suc k
           then take_bit (mut_bitsPerValue dst) (mut_cells src ! j)
           else mut_cells dst ! j)"
      by (cases "j = i") (auto simp: nth_list_update)
  qed
  with d(1,2,3) show ?case
    by (simp add: g s)
qed


lemma newMutable_fits: "newMutable n k = Inr m \<Longrightarrow> fits_width m"
  by (auto simp: newMutable_def fits_width_def list_all_iff split: if_splits)

lemma Mutable_Set_fits:
  assumes "fits_width m" and "Mutable_Set m i v = Inr m'"
  shows "fits_width m'"
proof -
  have "take_bit (mut_bitsPerValue m) c = c"
    if "c \<in> set ((mut_cells m)[nat i := take_bit (mut_bitsPerValue m) v])" for c
  proof -
    from that have "c = take_bit (mut_bitsPerValue m) v \<or> c \<in> set (mut_cells m)"
      using set_update_subset_insert by fastforce
    with assms(1) show ?thesis
      by (auto simp: fits_width_def list_all_iff)
  qed
  with assms(2) show ?thesis
    by (auto simp: Mutable_Set_def fits_width_def list_all_iff split: if_splits)
qed

lemma GrowableWriter_Set_fits_kept:
  assumes "fits_width (current w)"
    and "take_bit (mut_bitsPerValue (current w)) v = v"
    and "GrowableWriter_Set w i v = Inr w'"
  shows "fits_width (current w')"
proof -
  from assms(2,3) obtain m where "Mutable_Set (current w) i v = Inr m" and "w' = w\<lparr>current := m\<rparr>"
    by (auto simp: GrowableWriter_Set_def split: sum.splits)
  with assms(1) show ?thesis
    by (auto dest: Mutable_Set_fits)
qed

section \<open>Claims on the version check and the byte count\<close>

text \<open>
  C5. \<open>CheckVersion v\<close> fails with an unsupported-version panic exactly when
  \<open>v\<close> is below \<open>PACKED_VERSION_START\<close> or above \<open>PACKED_VERSION_CURRENT\<close>; it fails
  one below the oldest and one above the newest version, and returns normally for
  every version in between.
\<close>

theorem CheckVersion_range:
  "(CheckVersion v = Inr ()) = (PACKED_VERSION_START \<le> v \<and> v \<le> PACKED_VERSION_CURRENT)
   \<and> (CheckVersion v = Inl (VersionTooOld v)) = (v < PACKED_VERSION_START)
   \<and> (CheckVersion v = Inl (VersionTooNew v)) = (PACKED_VERSION_CURRENT < v)
   \<and> CheckVersion (PACKED_VERSION_START - 1) = Inl (VersionTooOld (PACKED_VERSION_START - 1))
   \<and> CheckVersion (PACKED_VERSION_CURRENT + 1) = Inl (VersionTooNew (PACKED_VERSION_CURRENT + 1))"
  by (auto simp: CheckVersion_def PACKED_VERSION_START_def PACKED_VERSION_CURRENT_def
        PACKED_VERSION_BYTE_ALIGNED_def)

text \<open>
  C4. For a value count \<open>n \<ge> 0\<close> (an \<open>int32\<close>) and a bit width \<open>b\<close> in 1..64, the
  byte count of the \<open>PACKED\<close> format is the ceiling of \<open>n * b / 8\<close> from the
  byte-aligned version on, and eight times the ceiling of \<open>n * b / 64\<close> before it.
  Before the byte-aligned version the result is a multiple of 8; from it on the
  result \<open>r\<close> is the least integer with \<open>n * b \<le> 8 * r\<close>, and before it the least multiple of 8
  with that property.
\<close>

theorem ByteCount_PACKED_ceiling:
  assumes "0 \<le> n" and "n < 2 ^ 31" and "1 \<le> uint b" and "uint b \<le> 64"
  shows "ByteCount PACKED v n b =
           Inr (if PACKED_VERSION_BYTE_ALIGNED \<le> v then \<lceil>real_of_int (n * uint b) / 8\<rceil>
                else 8 * \<lceil>real_of_int (n * uint b) / 64\<rceil>)
         \<and> (v < PACKED_VERSION_BYTE_ALIGNED \<longrightarrow>
              (\<exists>r. ByteCount PACKED v n b = Inr r \<and> r mod 8 = 0
                   \<and> 8 * (r - 8) < n * uint b \<and> n * uint b \<le> 8 * r))
         \<and> (PACKED_VERSION_BYTE_ALIGNED \<le> v \<longrightarrow>
              (\<exists>r. ByteCount PACKED v n b = Inr r
                   \<and> 8 * (r - 1) < n * uint b \<and> n * uint b \<le> 8 * r))"
proof -
  have bc: "ByteCount PACKED v n b =
              Inr (if v < PACKED_VERSION_BYTE_ALIGNED then 8 * ((n * uint b + 63) div 64)
                   else (n * uint b + 7) div 8)"
    using assms(1,2,4) by (rule ByteCount_PACKED)
  have lo: "8 * ((n * uint b + 63) div 64) mod 8 = 0"
    by simp
  have w: "8 * (8 * ((n * uint b + 63) div 64) - 8) < n * uint b
           \<and> n * uint b \<le> 8 * (8 * ((n * uint b + 63) div 64))"
    using ceil64_bounds [of "n * uint b"] by simp
  have b: "8 * ((n * uint b + 7) div 8 - 1) < n * uint b
           \<and> n * uint b \<le> 8 * ((n * uint b + 7) div 8)"
    using ceil8_bounds [of "n * uint b"] by (simp add: algebra_simps)
  show ?thesis
    unfolding bc ceiling_div_8 ceiling_div_64
    using lo w b by (simp add: not_less)
qed

theorem ByteCount_PACKED_ceiling_witness:
  "ByteCount PACKED 1 4 3 = Inr 2 \<and> ByteCount PACKED 0 4 3 = Inr 8
   \<and> ByteCount PACKED 0 10000 64 = Inr 80000 \<and> ByteCount PACKED 1 17 1 = Inr 3"
  using ByteCount_PACKED_ceiling [of 4 3 1] ByteCount_PACKED_ceiling [of 4 3 0]
    ByteCount_PACKED_ceiling [of 10000 64 0] ByteCount_PACKED_ceiling [of 17 1 1]
  by (simp add: PACKED_VERSION_BYTE_ALIGNED_def)

text \<open>
  C9. The byte count of the \<open>PACKED\<close> format is monotone, for every version: it
  does not decrease when the value count grows from \<open>n\<close> to \<open>n'\<close> at a fixed
  width \<open>b\<close> in 1..64, nor when the width grows from \<open>b\<close> to \<open>b'\<close> (both in 1..64)
  at a fixed count.
\<close>

theorem ByteCount_PACKED_monotone:
  assumes "0 \<le> n" and "n \<le> n'" and "n' < 2 ^ 31"
    and "1 \<le> uint b" and "uint b \<le> uint b'" and "uint b' \<le> 64"
  shows "(\<exists>r r'. ByteCount PACKED v n b = Inr r \<and> ByteCount PACKED v n' b = Inr r' \<and> r \<le> r')
       \<and> (\<exists>r r'. ByteCount PACKED v n b = Inr r \<and> ByteCount PACKED v n b' = Inr r' \<and> r \<le> r')"
proof -
  have n31: "n < 2 ^ 31"
    using assms(2,3) by (rule le_less_trans)
  have b64: "uint b \<le> 64"
    using assms(5,6) by (rule order_trans)
  have n'0: "0 \<le> n'"
    using assms(1,2) by (rule order_trans)
  have n: "ByteCount PACKED v n b =
              Inr (if v < PACKED_VERSION_BYTE_ALIGNED then 8 * ((n * uint b + 63) div 64)
                   else (n * uint b + 7) div 8)"
    using assms(1) n31 b64 by (rule ByteCount_PACKED)
  have n': "ByteCount PACKED v n' b =
              Inr (if v < PACKED_VERSION_BYTE_ALIGNED then 8 * ((n' * uint b + 63) div 64)
                   else (n' * uint b + 7) div 8)"
    using n'0 assms(3) b64 by (rule ByteCount_PACKED)
  have b': "ByteCount PACKED v n b' =
              Inr (if v < PACKED_VERSION_BYTE_ALIGNED then 8 * ((n * uint b' + 63) div 64)
                   else (n * uint b' + 7) div 8)"
    using assms(1) n31 assms(6) by (rule ByteCount_PACKED)
  have m1: "n * uint b \<le> n' * uint b"
    using assms(2) by (rule mult_right_mono) simp
  have m2: "n * uint b \<le> n * uint b'"
    using assms(5,1) by (rule mult_left_mono)
  have d1: "(n * uint b + 63) div 64 \<le> (n' * uint b + 63) div 64"
    by (rule zdiv_mono1) (use m1 in simp_all)
  have d2: "(n * uint b + 7) div 8 \<le> (n' * uint b + 7) div 8"
    by (rule zdiv_mono1) (use m1 in simp_all)
  have d3: "(n * uint b + 63) div 64 \<le> (n * uint b' + 63) div 64"
    by (rule zdiv_mono1) (use m2 in simp_all)
  have d4: "(n * uint b + 7) div 8 \<le> (n * uint b' + 7) div 8"
    by (rule zdiv_mono1) (use m2 in simp_all)
  show ?thesis
  proof (cases "v < PACKED_VERSION_BYTE_ALIGNED")
    case True
    then show ?thesis
      unfolding n n' b' using d1 d3 by simp
  next
    case False
    then show ?thesis
      unfolding n n' b' using d2 d4 by simp
  qed
qed

theorem ByteCount_PACKED_monotone_witness:
  "(\<exists>r r'. ByteCount PACKED 0 17 5 = Inr r \<and> ByteCount PACKED 0 10000 5 = Inr r' \<and> r \<le> r')
   \<and> (\<exists>r r'. ByteCount PACKED 0 17 5 = Inr r \<and> ByteCount PACKED 0 17 64 = Inr r' \<and> r \<le> r')"
  using ByteCount_PACKED_monotone [of 17 10000 5 64 0] by simp

section \<open>Claims on the general reader's mask and on the bulk operations\<close>

text \<open>
  C8. For a value count \<open>n \<ge> 0\<close> and a bit width \<open>b\<close> in 1..64, \<open>newPacked64\<close>
  returns a reader whose \<open>maskRight\<close>, computed as
  \<open>(~0 << (64 - b)) >> (64 - b)\<close> with a logical right shift, is \<open>2^b - 1\<close>: and-ing
  a word with it keeps exactly the word's low \<open>b\<close> bits.
\<close>

theorem newPacked64_maskRight:
  assumes "0 \<le> n" and "n < 2 ^ 31" and "1 \<le> uint b" and "uint b \<le> 64"
  shows "\<exists>p. newPacked64 n b = Inr p \<and> maskRight p = mask (unat b)
             \<and> unat (maskRight p) = 2 ^ unat b - 1
             \<and> (\<forall>w. w AND maskRight p = take_bit (unat b) w)"
proof -
  obtain l where l: "longCount PACKED PACKED_VERSION_CURRENT n b = Inr l" "0 \<le> l"
    using longCount_PACKED [OF assms(1,2,4)] by blast
  have m: "drop_bit (unat (PACKED64_BLOCK_SIZE - b))
             (push_bit (unat (PACKED64_BLOCK_SIZE - b)) (NOT 0 :: 64 word)) = mask (unat b)"
    using assms(3,4) by (rule maskRight_value)
  have "uint b = int (unat b)"
    by (rule uint_nat)
  with assms(4) have "unat b \<le> 64"
    by linarith
  then have u: "unat (mask (unat b) :: 64 word) = 2 ^ unat b - 1"
    by (rule unat_mask64)
  have "newPacked64 n b =
          Inr \<lparr>impl_bitsPerValue = b, impl_valueCount = n, blocks = replicate (nat l) 0,
                maskRight = mask (unat b), bpvMinusBlockSize = b - PACKED64_BLOCK_SIZE\<rparr>"
    unfolding newPacked64_def l m using l(2) by simp
  then show ?thesis
    by (simp add: u take_bit_eq_mask)
qed

theorem newPacked64_maskRight_witness:
  "\<exists>p. newPacked64 4 3 = Inr p \<and> maskRight p = 7 \<and> unat (maskRight p) = 7"
  using newPacked64_maskRight [of 4 3] by (auto simp: mask_eq_exp_minus_1)

text \<open>
  C10. \<open>GetPackedIntsEncoder\<close> and \<open>GetPackedIntsDecoder\<close> check the version before
  they construct anything: for a version below \<open>PACKED_VERSION_START\<close> or above
  \<open>PACKED_VERSION_CURRENT\<close> the call ends in the unsupported-version panic, whatever
  \<open>newBulkOperation\<close> would do, and no object is returned; for a version inside the
  range the call is the call of \<open>newBulkOperation\<close> on the format and the width.
\<close>

theorem GetPackedInts_version_checked:
  "(version < PACKED_VERSION_START \<longrightarrow>
      GetPackedIntsEncoder nb f version b = Inl (VersionTooOld version)
      \<and> GetPackedIntsDecoder nb f version b = Inl (VersionTooOld version))
   \<and> (PACKED_VERSION_CURRENT < version \<longrightarrow>
      GetPackedIntsEncoder nb f version b = Inl (VersionTooNew version)
      \<and> GetPackedIntsDecoder nb f version b = Inl (VersionTooNew version))
   \<and> (PACKED_VERSION_START \<le> version \<and> version \<le> PACKED_VERSION_CURRENT \<longrightarrow>
      GetPackedIntsEncoder nb f version b = nb f b
      \<and> GetPackedIntsDecoder nb f version b = nb f b)"
  by (simp add: GetPackedIntsEncoder_def GetPackedIntsDecoder_def CheckVersion_def
        PACKED_VERSION_START_def PACKED_VERSION_CURRENT_def PACKED_VERSION_BYTE_ALIGNED_def)

theorem GetPackedInts_version_checked_witness:
  "GetPackedIntsEncoder (\<lambda>f b. Inr (f, b)) 0 (- 1) 7 = Inl (VersionTooOld (- 1))
   \<and> GetPackedIntsDecoder (\<lambda>f b. Inr (f, b)) 0 2 7 = Inl (VersionTooNew 2)
   \<and> GetPackedIntsEncoder (\<lambda>f b. Inr (f, b)) 0 1 7 = Inr (0, 7)
   \<and> GetPackedIntsDecoder (\<lambda>f b. Inr (f, b)) 0 0 7 = Inr (0, 7)"
  using GetPackedInts_version_checked [of "- 1" "\<lambda>f b. Inr (f, b)" 0 7]
    GetPackedInts_version_checked [of 2 "\<lambda>f b. Inr (f, b)" 0 7]
    GetPackedInts_version_checked [of 1 "\<lambda>f b. Inr (f, b)" 0 7]
    GetPackedInts_version_checked [of 0 "\<lambda>f b. Inr (f, b)" 0 7]
  by (simp add: PACKED_VERSION_START_def PACKED_VERSION_CURRENT_def PACKED_VERSION_BYTE_ALIGNED_def)

section \<open>Claims on the readers built from input\<close>




text \<open>
  C6. With a version the check accepts, the factory returns what the reader's
  constructor returns: the single-block reader for \<open>PACKED_SINGLE_BLOCK\<close>; for
  \<open>PACKED\<close>, Direct8, Direct16, Direct32 and Direct64 at widths 8, 16, 32 and 64,
  Packed8ThreeBlocks at width 24 and Packed16ThreeBlocks at width 48 when the value
  count is within the size bound, and the general Packed64 reader for every other
  width and for 24 and 48 beyond the bound. Any other format ends in the
  unknown-format panic.
\<close>

theorem newPackedHeaderNoHeader_dispatch:
  assumes "PACKED_VERSION_START \<le> version" and "version \<le> PACKED_VERSION_CURRENT"
  shows "newPackedHeaderNoHeader sb inp PACKED_SINGLE_BLOCK version n b =
           as_reader Packed64SingleBlockReader (sb inp n b)
       \<and> newPackedHeaderNoHeader sb inp PACKED version n 8 =
           as_reader Direct8Reader (newDirect8FromInput version inp n)
       \<and> newPackedHeaderNoHeader sb inp PACKED version n 16 =
           as_reader Direct16Reader (newDirect16FromInput version inp n)
       \<and> newPackedHeaderNoHeader sb inp PACKED version n 32 =
           as_reader Direct32Reader (newDirect32FromInput version inp n)
       \<and> newPackedHeaderNoHeader sb inp PACKED version n 64 =
           as_reader Direct64Reader (newDirect64FromInput version inp n)
       \<and> (n \<le> PACKED8_THREE_BLOCKS_MAX_SIZE \<longrightarrow>
            newPackedHeaderNoHeader sb inp PACKED version n 24 =
              as_reader Packed8ThreeBlocksReader (newPacked8ThreeBlocksFromInput version inp n))
       \<and> (n \<le> PACKED16_THREE_BLOCKS_MAX_SIZE \<longrightarrow>
            newPackedHeaderNoHeader sb inp PACKED version n 48 =
              as_reader Packed16ThreeBlocksReader (newPacked16ThreeBlocksFromInput version inp n))
       \<and> (b \<noteq> 8 \<and> b \<noteq> 16 \<and> b \<noteq> 32 \<and> b \<noteq> 64
            \<and> (b = 24 \<longrightarrow> PACKED8_THREE_BLOCKS_MAX_SIZE < n)
            \<and> (b = 48 \<longrightarrow> PACKED16_THREE_BLOCKS_MAX_SIZE < n) \<longrightarrow>
            newPackedHeaderNoHeader sb inp PACKED version n b =
              as_reader Packed64Reader (newPacked64FromInput version inp n b))
       \<and> (format \<noteq> PACKED \<and> format \<noteq> PACKED_SINGLE_BLOCK \<longrightarrow>
            newPackedHeaderNoHeader sb inp format version n b = Inl (UnknownFormat format))"
proof -
  have cv: "CheckVersion version = Inr ()"
    using assms by (simp add: CheckVersion_def)
  have ne: "PACKED \<noteq> PACKED_SINGLE_BLOCK"
    by (simp add: PACKED_def PACKED_SINGLE_BLOCK_def)
  show ?thesis
    using ne by (auto simp: newPackedHeaderNoHeader_def cv)
qed

theorem newPackedHeaderNoHeader_dispatch_witness:
  "newPackedHeaderNoHeader (\<lambda>i n b. Inr ((), None, i)) \<lparr>avail = [1, 2, 3], fault = EOF\<rparr> 0 1 1 24 =
     as_reader Packed8ThreeBlocksReader
       (newPacked8ThreeBlocksFromInput 1 \<lparr>avail = [1, 2, 3], fault = EOF\<rparr> 1)
   \<and> newPackedHeaderNoHeader (\<lambda>i n b. Inr ((), None, i)) \<lparr>avail = [1, 2, 3], fault = EOF\<rparr> 0 0 2 12 =
     as_reader Packed64Reader (newPacked64FromInput 0 \<lparr>avail = [1, 2, 3], fault = EOF\<rparr> 2 12)
   \<and> newPackedHeaderNoHeader (\<lambda>i n b. Inr ((), None, i)) \<lparr>avail = [1, 2, 3], fault = EOF\<rparr> 1 1 2 12 =
     Inr (Packed64SingleBlockReader (), None, \<lparr>avail = [1, 2, 3], fault = EOF\<rparr>)
   \<and> newPackedHeaderNoHeader (\<lambda>i n b. Inr ((), None, i)) \<lparr>avail = [1, 2, 3], fault = EOF\<rparr> 2 1 2 12 =
     Inl (UnknownFormat 2)"
  using newPackedHeaderNoHeader_dispatch [of 1 "\<lambda>i n b. Inr ((), None, i)"
      "\<lparr>avail = [1, 2, 3], fault = EOF\<rparr>" 1 12 2]
    newPackedHeaderNoHeader_dispatch [of 0 "\<lambda>i n b. Inr ((), None, i)"
      "\<lparr>avail = [1, 2, 3], fault = EOF\<rparr>" 2 12 2]
    newPackedHeaderNoHeader_dispatch [of 1 "\<lambda>i n b. Inr ((), None, i)"
      "\<lparr>avail = [1, 2, 3], fault = EOF\<rparr>" 2 12 2]
  by (simp add: PACKED_def PACKED_SINGLE_BLOCK_def PACKED_VERSION_START_def
        PACKED_VERSION_CURRENT_def PACKED_VERSION_BYTE_ALIGNED_def
        PACKED8_THREE_BLOCKS_MAX_SIZE_def as_reader_def)

text \<open>
  C2, at a concrete reader: \<open>Get\<close> on the cells \<open>[1, 2, 3, 255, 0, 128]\<close> returns 3
  and 128, the low bytes, where the combination of three cells would be 66051 and
  16711808.
\<close>

theorem Packed8ThreeBlocks_Get_low_byte:
  "Packed8ThreeBlocks_Get
     \<lparr>impl_bitsPerValue = 24, impl_valueCount = 2, blocks8 = [1, 2, 3, 255, 0, 128]\<rparr> 0 = Inr 3
   \<and> Packed8ThreeBlocks_Get
     \<lparr>impl_bitsPerValue = 24, impl_valueCount = 2, blocks8 = [1, 2, 3, 255, 0, 128]\<rparr> 1 = Inr 128"
  by code_simp

text \<open>
  C1, at concrete inputs. One trailing byte \<open>160\<close> is stored as \<open>160 * 2^5\<close>, not as
  \<open>160 * 2^56\<close>; with two trailing bytes the second shift count is \<open>5 - 8\<close> and
  the constructor panics; the whole words before the trailing byte are read in
  big-endian order into consecutive blocks.
\<close>

theorem newPacked64FromInput_trailing_bytes:
  "newPacked64FromInput 1 \<lparr>avail = [160], fault = EOF\<rparr> 1 3 =
     Inr (\<lparr>impl_bitsPerValue = 3, impl_valueCount = 1, blocks = [5120], maskRight = 7,
           bpvMinusBlockSize = 4294967235\<rparr>, None, \<lparr>avail = [], fault = EOF\<rparr>)
   \<and> newPacked64FromInput 1 \<lparr>avail = [171, 205], fault = EOF\<rparr> 4 3 = Inl NegativeShiftAmount
   \<and> newPacked64FromInput 1 \<lparr>avail = [1, 2, 3, 4, 5, 6, 7, 8, 9], fault = EOF\<rparr> 3 24 =
     Inr (\<lparr>impl_bitsPerValue = 24, impl_valueCount = 3, blocks = [72623859790382856, 288],
           maskRight = 16777215, bpvMinusBlockSize = 4294967256\<rparr>, None,
          \<lparr>avail = [], fault = EOF\<rparr>)"
  by code_simp

section \<open>Claim on the growable writer\<close>

text \<open>
  C7. Let a writer hold values that fit its backing's width \<open>w\<close> (as they do after
  construction and after every \<open>Set\<close>), and let \<open>v\<close> be a value that does not fit
  \<open>w\<close> bits. Then \<open>Set(i, v)\<close> at an index inside the writer returns a writer whose
  backing has the minimum width that accommodates \<open>v\<close>, which is greater than \<open>w\<close>;
  \<open>Size\<close> is unchanged, \<open>Get(i)\<close> returns \<open>v\<close>, and \<open>Get(j)\<close> returns what it
  returned before at every other index.
\<close>

theorem GrowableWriter_Set_grows:
  assumes "fits_width (current w)"
    and "0 \<le> i" and "i < GrowableWriter_Size w"
    and "take_bit (mut_bitsPerValue (current w)) v \<noteq> v"
  shows "\<exists>w'. GrowableWriter_Set w i v = Inr w'
           \<and> GrowableWriter_Size w' = GrowableWriter_Size w
           \<and> GrowableWriter_Get w' i = Inr v
           \<and> (\<forall>j. j \<noteq> i \<longrightarrow> GrowableWriter_Get w' j = GrowableWriter_Get w j)
           \<and> mut_bitsPerValue (current w) < mut_bitsPerValue (current w')
           \<and> mut_bitsPerValue (current w') = bitsRequired v
           \<and> fits_width (current w')"
proof -
  let ?cur = "current w"
  let ?n = "length (mut_cells ?cur)"
  let ?k = "bitsRequired v"
  let ?next = "\<lparr>mut_bitsPerValue = ?k, mut_cells = replicate ?n 0\<rparr>"
  have size: "GrowableWriter_Size w = int ?n"
    by (simp add: GrowableWriter_Size_def Mutable_Size_def)
  have new: "newMutable (GrowableWriter_Size w) ?k = Inr ?next"
    by (simp add: newMutable_def size)
  have wider: "mut_bitsPerValue ?cur < ?k"
    using assms(4) by (rule bitsRequired_greater)
  have "0 + ?n \<le> length (mut_cells ?next)" and "length (mut_cells ?cur) = length (mut_cells ?next)"
    by simp_all
  from copyValues_result [OF this] obtain next' where
    cp: "copyValues ?n 0 ?cur ?next = Inr next'"
    and bits: "mut_bitsPerValue next' = ?k"
    and len: "length (mut_cells next') = ?n"
    and cells: "\<forall>j < ?n. mut_cells next' ! j = take_bit ?k (mut_cells ?cur ! j)"
    by auto
  have same: "mut_cells next' ! j = mut_cells ?cur ! j" if "j < ?n" for j
  proof -
    from that have "mut_cells ?cur ! j \<in> set (mut_cells ?cur)"
      by simp
    with assms(1) have "take_bit (mut_bitsPerValue ?cur) (mut_cells ?cur ! j) = mut_cells ?cur ! j"
      by (simp add: fits_width_def list_all_iff)
    then have "take_bit ?k (mut_cells ?cur ! j) = mut_cells ?cur ! j"
      using less_imp_le [OF wider] by (rule fits_mono)
    with cells that show ?thesis
      by simp
  qed
  let ?m = "next'\<lparr>mut_cells := (mut_cells next')[nat i := v]\<rparr>"
  have i: "nat i < ?n"
    using assms(2,3) by (simp add: size)
  have set: "Mutable_Set next' i v = Inr ?m"
    using assms(2,3) by (simp add: Mutable_Set_def len size bits bitsRequired_fits)
  have nsize: "nat (GrowableWriter_Size w) = ?n"
    by (simp add: size)
  have res: "GrowableWriter_Set w i v = Inr (w\<lparr>current := ?m\<rparr>)"
    unfolding GrowableWriter_Set_def new nsize using assms(4) by (simp add: cp set)
  have get_i: "GrowableWriter_Get (w\<lparr>current := ?m\<rparr>) i = Inr v"
    using assms(2) i by (simp add: GrowableWriter_Get_def Mutable_Get_def len)
  have get_j: "GrowableWriter_Get (w\<lparr>current := ?m\<rparr>) j = GrowableWriter_Get w j" if "j \<noteq> i" for j
  proof (cases "0 \<le> j \<and> j < int ?n")
    case True
    then have "nat j < ?n" and "nat j \<noteq> nat i"
      using that assms(2) by auto
    with True same [of "nat j"] show ?thesis
      by (simp add: GrowableWriter_Get_def Mutable_Get_def len)
  next
    case False
    then show ?thesis
      by (auto simp: GrowableWriter_Get_def Mutable_Get_def len)
  qed
  have fits: "fits_width ?m"
  proof -
    have "fits_width next'"
      unfolding fits_width_def list_all_length
      using same assms(1) wider cells by (simp add: len bits)
    moreover have "Mutable_Set next' i v = Inr ?m"
      by (rule set)
    ultimately show ?thesis
      by (rule Mutable_Set_fits)
  qed
  show ?thesis
    using get_i get_j wider fits
    by (simp add: res GrowableWriter_Size_def Mutable_Size_def len bits)
qed

theorem GrowableWriter_Set_grows_witness:
  "\<exists>w'. GrowableWriter_Set \<lparr>current = \<lparr>mut_bitsPerValue = 2, mut_cells = [3, 1, 2]\<rparr>\<rparr> 1 9 = Inr w'
     \<and> GrowableWriter_Size w' = 3
     \<and> GrowableWriter_Get w' 0 = Inr 3
     \<and> GrowableWriter_Get w' 1 = Inr 9
     \<and> GrowableWriter_Get w' 2 = Inr 2
     \<and> mut_bitsPerValue (current w') = 4"
proof -
  let ?w = "\<lparr>current = \<lparr>mut_bitsPerValue = 2, mut_cells = [3, 1, 2]\<rparr>\<rparr>"
  have f: "fits_width (current ?w)"
    by code_simp
  have r: "0 \<le> (1::int)" "1 < GrowableWriter_Size ?w"
    by (simp_all add: GrowableWriter_Size_def Mutable_Size_def)
  have t: "take_bit (mut_bitsPerValue (current ?w)) (9 :: 64 word) \<noteq> 9"
    by code_simp
  have b: "bitsRequired 9 = 4"
    by code_simp
  have g: "GrowableWriter_Get ?w 0 = Inr 3" "GrowableWriter_Get ?w 2 = Inr 2"
    by (simp_all add: GrowableWriter_Get_def Mutable_Get_def)
  have s: "GrowableWriter_Size ?w = 3"
    by (simp add: GrowableWriter_Size_def Mutable_Size_def)
  from GrowableWriter_Set_grows [OF f r t] obtain w' where
    "GrowableWriter_Set ?w 1 9 = Inr w'" "GrowableWriter_Size w' = GrowableWriter_Size ?w"
    "GrowableWriter_Get w' 1 = Inr 9"
    "\<forall>j. j \<noteq> 1 \<longrightarrow> GrowableWriter_Get w' j = GrowableWriter_Get ?w j"
    "mut_bitsPerValue (current w') = bitsRequired 9"
    by blast
  then show ?thesis
    using g s b by (intro exI [of _ w']) simp
qed

end
